theory Spec2Isabelle
  imports Main
begin

section \<open>Values, elements and the DOM collaborator\<close>

text \<open>
  The JavaScript values that reach a result of \<^verbatim>\<open>src/lib/index.js\<close>. \<open>JRec\<close> is a plain
  object: its own keys in the order in which they were first written, and the prototype
  every object literal has. \<open>JProto kvs p\<close> is such an object after an assignment to
  \<^verbatim>\<open>__proto__\<close> has made \<open>p\<close> (an object, or \<^verbatim>\<open>null\<close>) its prototype. \<open>JArr\<close> is an array,
  \<open>JOpaque\<close> any other object or function (a Cheerio method read as a property, for one).
  JavaScript lists the keys that are array indices before the others; no statement below
  depends on the order of the keys of a result.
\<close>

datatype jsval =
    JUndef
  | JNull
  | JBool bool
  | JNum int
  | JStr string
  | JArr "jsval list"
  | JRec "(string \<times> jsval) list"
  | JProto "(string \<times> jsval) list" jsval
  | JOpaque

text \<open>JavaScript truthiness, as \<^verbatim>\<open>doc.___raw || doc\<close> (line 172) tests it.\<close>

fun truthy :: "jsval \<Rightarrow> bool" where
  "truthy JUndef = False"
| "truthy JNull = False"
| "truthy (JBool b) = b"
| "truthy (JNum n) = (n \<noteq> 0)"
| "truthy (JStr s) = (s \<noteq> [])"
| "truthy (JArr xs) = True"
| "truthy (JRec kvs) = True"
| "truthy (JProto kvs p) = True"
| "truthy JOpaque = True"

text \<open>
  What the variables \<^verbatim>\<open>context\<close> and \<^verbatim>\<open>element\<close> of \<^verbatim>\<open>handleDataObj\<close> can hold:
  \<^item> \<open>EUndef\<close>: \<^verbatim>\<open>undefined\<close>; \<^verbatim>\<open>scrapeHTML\<close> calls \<^verbatim>\<open>handleDataObj($, opts)\<close> with no
    third argument (line 135);
  \<^item> \<open>ERoot\<close>: the document function \<^verbatim>\<open>$\<close> itself, which line 145 compares the context with;
  \<^item> \<open>ESel ns\<close>: a Cheerio selection of the nodes \<open>ns\<close>, in document order
    (\<^verbatim>\<open>$(selector, context)\<close>, \<^verbatim>\<open>items.eq(i)\<close>, \<^verbatim>\<open>element.closest(..)\<close>);
  \<^item> \<open>ENode n\<close>: a bare DOM node, \<^verbatim>\<open>children[i]\<close> of line 186, which has \<^verbatim>\<open>type\<close> and
    \<^verbatim>\<open>data\<close> and none of a selection's methods;
  \<^item> \<open>ELoad\<close>: the document function of a fresh empty document, \<^verbatim>\<open>cheerio.load('')\<close>
    (line 198).
\<close>

datatype 'n elem = EUndef | ERoot | ESel "'n list" | ENode 'n | ELoad

text \<open>
  The field \<^verbatim>\<open>how\<close>: an accessor's name, a function of the caller's (which returns a value
  or throws: \<open>None\<close>), or one of the two closures the source creates,
  \<^verbatim>\<open>element => element.attr(v.attr)\<close> (line 235) and \<^verbatim>\<open>elm => elm.data\<close> (line 200).
\<close>

datatype 'n how =
    HowName string
  | HowFn "'n elem \<Rightarrow> jsval option"
  | HowAttr string
  | HowTextData

text \<open>
  A field definition as the caller writes it: a selector string, or an object with any of
  the documented options and the sub-schema \<^verbatim>\<open>data\<close>. An absent option is \<open>None\<close>.
  \<^verbatim>\<open>convert\<close> is a function of the caller's and may throw (\<open>None\<close>). A schema lists its
  fields in the order of \<^verbatim>\<open>Object.entries\<close>; no object occurs twice in a schema, so that
  the state of the caller's schema after a call is the schema the model returns.
\<close>

record 'n opts =
  selector :: "string option"
  listItem :: "string option"
  how :: "'n how option"
  attr :: "string option"
  trimValue :: "bool option"
  closest :: "string option"
  eq :: "int option"
  texteq :: "int option"
  convert :: "(jsval \<Rightarrow> 'n elem \<Rightarrow> jsval option) option"
  name :: "string option"

datatype 'n rawdef = RStr string | RObj "'n opts" "(string \<times> 'n rawdef) list option"

type_synonym 'n schema = "(string \<times> 'n rawdef) list"

text \<open>
  What a call can throw: the \<^verbatim>\<open>Err\<close> of line 146 with the descriptor it carries, a
  \<^verbatim>\<open>TypeError\<close> of the language (a method called on a value that has none), or whatever a
  function of the caller's throws.
\<close>

datatype 'n error = NoElementSelected "'n opts" "'n schema" | TypeError | Thrown

text \<open>
  The operations of the DOM library the engine calls, as parameters: \<^verbatim>\<open>$(selector, context)\<close>,
  \<^verbatim>\<open>.closest(selector)\<close> and \<^verbatim>\<open>.contents()\<close> of a selection, \<^verbatim>\<open>child.type === 'text'\<close> and
  \<^verbatim>\<open>child.data\<close> of a node, \<^verbatim>\<open>.attr(name)\<close> of a selection (\<open>JUndef\<close> when the attribute is
  absent), and \<^verbatim>\<open>element[how]()\<close> for an accessor's name, \<open>None\<close> where the value has no
  such method.

  \<open>accepts\<close> is the set of selectors the library parses. On any other selector the calls of
  lines 155, 159 and 204 throw the library's \<^verbatim>\<open>SyntaxError\<close>, which the engine below does not
  follow: \<open>query\<close> and \<open>closest_of\<close> are the library's answers on the selectors it accepts,
  and a statement that says that a call returns assumes \<open>accepts\<close> of every selector the
  call reaches.
\<close>

record 'n dom =
  query :: "string \<Rightarrow> 'n elem \<Rightarrow> 'n list"
  closest_of :: "'n list \<Rightarrow> string \<Rightarrow> 'n list"
  contents :: "'n list \<Rightarrow> 'n list"
  is_text :: "'n \<Rightarrow> bool"
  node_data :: "'n \<Rightarrow> jsval"
  read_attr :: "'n list \<Rightarrow> string \<Rightarrow> jsval"
  accessor :: "string \<Rightarrow> 'n elem \<Rightarrow> jsval option"
  accepts :: "string \<Rightarrow> bool"

section \<open>Schema normalizer\<close>

text \<open>\<^verbatim>\<open>value.selector ? .. : ..\<close>, \<^verbatim>\<open>!value.listItem\<close>, \<^verbatim>\<open>if (v.attr)\<close>: an optional string is
  truthy when it is present and not empty.\<close>

definition given :: "string option \<Rightarrow> bool" where
  "given s = (case s of None \<Rightarrow> False | Some x \<Rightarrow> x \<noteq> [])"

text \<open>
  Modelled from the spec: \<^verbatim>\<open>objDef\<close> is the package obj-def, which is not part of the
  repository. Section 4.1 of the spec gives what it does here: a field that is absent gets
  the default, a field that is present is kept.
\<close>

definition objDef :: "'a option \<Rightarrow> 'a \<Rightarrow> 'a option" where
  "objDef cur dflt = (case cur of None \<Rightarrow> Some dflt | Some x \<Rightarrow> Some x)"

text \<open>The object literal \<^verbatim>\<open>{}\<close>.\<close>

definition no_opts :: "'n opts" where
  "no_opts = \<lparr> selector = None, listItem = None, how = None, attr = None,
               trimValue = None, closest = None, eq = None, texteq = None,
               convert = None, name = None \<rparr>"

text \<open>Lines 232 to 239: the writes of \<^verbatim>\<open>normalizeOpt\<close> to the options of \<^verbatim>\<open>v\<close>.\<close>

definition fill :: "'n opts \<Rightarrow> 'n opts" where
  "fill v =
     (let v1 = v\<lparr>how := objDef (how v) (HowName ''text'')\<rparr>;
          v2 = (case attr v1 of
                  None \<Rightarrow> v1
                | Some a \<Rightarrow> if a = [] then v1 else v1\<lparr>how := Some (HowAttr a)\<rparr>)
      in v2\<lparr>trimValue := objDef (trimValue v2) True,
              closest := objDef (closest v2) []\<rparr>)"

text \<open>
  \<^verbatim>\<open>normalizeOpt\<close> returns the descriptor: its options and its sub-schema, which line 231
  defaults to \<^verbatim>\<open>{}\<close>. For a string the descriptor is a new object; for an object it is the
  caller's object itself, written in place.
\<close>

fun normalizeOpt :: "'n rawdef \<Rightarrow> 'n opts \<times> 'n schema" where
  "normalizeOpt (RStr s) = (fill (no_opts\<lparr>selector := Some s\<rparr>), [])"
| "normalizeOpt (RObj v dt) = (fill v, case dt of None \<Rightarrow> [] | Some es \<Rightarrow> es)"

text \<open>
  The caller's field definition once the descriptor holds options \<open>v\<close> and sub-schema
  \<open>dt\<close>: a string stays the string it was, an object is the descriptor.
\<close>

definition stored :: "'n rawdef \<Rightarrow> 'n opts \<Rightarrow> 'n schema \<Rightarrow> 'n rawdef" where
  "stored raw v dt = (case raw of RStr s \<Rightarrow> RStr s | RObj _ _ \<Rightarrow> RObj v (Some dt))"

section \<open>Node resolver\<close>

text \<open>
  Modelled from the spec: \<^verbatim>\<open>.eq(i)\<close> of a selection is the library's; section 6 of the spec
  calls it \<^verbatim>\<open>nthMatch(nodes, i) -> node-or-empty\<close> and section 4.2 says that a position out of
  range yields the empty selection. A negative position, on which the spec is silent, counts
  from the end as the library's does.
\<close>

definition sel_eq :: "'n list \<Rightarrow> int \<Rightarrow> 'n list" where
  "sel_eq ns i =
     (let j = (if i < 0 then int (length ns) + i else i)
      in if 0 \<le> j \<and> j < int (length ns) then [ns ! nat j] else [])"

text \<open>Line 155: \<^verbatim>\<open>value.selector ? $(value.selector, context) : context\<close>.\<close>

definition resolve :: "'n dom \<Rightarrow> 'n opts \<Rightarrow> 'n elem \<Rightarrow> 'n elem" where
  "resolve D v context =
     (case selector v of
        None \<Rightarrow> context
      | Some s \<Rightarrow> if s = [] then context else ESel (query D s context))"

text \<open>Line 159: \<^verbatim>\<open>$(value.listItem, context)\<close>, read where \<^verbatim>\<open>value.listItem\<close> is truthy.\<close>

definition list_items :: "'n dom \<Rightarrow> 'n opts \<Rightarrow> 'n elem \<Rightarrow> 'n list" where
  "list_items D v context = (case listItem v of None \<Rightarrow> [] | Some l \<Rightarrow> query D l context)"

text \<open>Lines 177 to 179. Only a selection has the method \<^verbatim>\<open>eq\<close>.\<close>

definition narrow_eq :: "'n opts \<Rightarrow> 'n elem \<Rightarrow> 'n error + 'n elem" where
  "narrow_eq v element =
     (case eq v of
        None \<Rightarrow> Inr element
      | Some i \<Rightarrow> (case element of ESel ns \<Rightarrow> Inr (ESel (sel_eq ns i)) | _ \<Rightarrow> Inl TypeError))"

text \<open>The loop of lines 186 to 196 over the children, counting the text nodes.\<close>

fun find_text :: "'n dom \<Rightarrow> 'n list \<Rightarrow> int \<Rightarrow> int \<Rightarrow> 'n option" where
  "find_text D [] t textCounter = None"
| "find_text D (child # children) t textCounter =
     (if is_text D child
      then (if textCounter = t then Some child else find_text D children t (textCounter + 1))
      else find_text D children t textCounter)"

text \<open>Lines 181 to 198: the element becomes the text node found, or \<^verbatim>\<open>cheerio.load('')\<close>.\<close>

definition narrow_texteq :: "'n dom \<Rightarrow> 'n opts \<Rightarrow> 'n elem \<Rightarrow> 'n error + 'n elem" where
  "narrow_texteq D v element =
     (case texteq v of
        None \<Rightarrow> Inr element
      | Some t \<Rightarrow>
          (case element of
             ESel ns \<Rightarrow>
               Inr (case find_text D (contents D ns) t 0 of Some child \<Rightarrow> ENode child | None \<Rightarrow> ELoad)
           | _ \<Rightarrow> Inl TypeError))"

text \<open>Line 200: \<^verbatim>\<open>value.how = elm => elm.data\<close>, inside \<^verbatim>\<open>if (typpy(value.texteq, Number))\<close>.\<close>

definition override_how :: "'n opts \<Rightarrow> 'n opts" where
  "override_how v = (case texteq v of None \<Rightarrow> v | Some t \<Rightarrow> v\<lparr>how := Some HowTextData\<rparr>)"

text \<open>Line 204. Only a selection has the method \<^verbatim>\<open>closest\<close>.\<close>

definition narrow_closest :: "'n dom \<Rightarrow> 'n opts \<Rightarrow> 'n elem \<Rightarrow> 'n error + 'n elem" where
  "narrow_closest D v element =
     (case closest v of
        None \<Rightarrow> Inr element
      | Some c \<Rightarrow>
          if c = [] then Inr element
          else (case element of
                  ESel ns \<Rightarrow> Inr (ESel (closest_of D ns c))
                | _ \<Rightarrow> Inl TypeError))"

section \<open>Value extractor\<close>

text \<open>
  \<^verbatim>\<open>String.prototype.trim\<close>. A \<open>string\<close> is a list of characters with the codes 0 to 255; the
  white space and line terminators of the language among them are the codes 9 to 13, 32
  and 160 (the no-break space).
\<close>

definition is_ws :: "char \<Rightarrow> bool" where
  "is_ws c = (c \<in> set [CHR '' '', CHR 0x09, CHR 0x0A, CHR 0x0B, CHR 0x0C, CHR 0x0D, CHR 0xA0])"

definition trim :: "string \<Rightarrow> string" where
  "trim s = rev (dropWhile is_ws (rev (dropWhile is_ws s)))"

text \<open>
  Line 212: \<^verbatim>\<open>typpy(value.how, Function) ? value.how(element) : element[value.how]()\<close>.
  The closure of line 235 calls \<^verbatim>\<open>element.attr\<close>, which a selection has; the closure of
  line 200 reads the property \<^verbatim>\<open>data\<close>, which throws on \<^verbatim>\<open>undefined\<close> only.
\<close>

definition read_how :: "'n dom \<Rightarrow> 'n how option \<Rightarrow> 'n elem \<Rightarrow> 'n error + jsval" where
  "read_how D h element =
     (case h of
        Some (HowFn f) \<Rightarrow> (case f element of None \<Rightarrow> Inl Thrown | Some x \<Rightarrow> Inr x)
      | Some (HowAttr a) \<Rightarrow>
          (case element of ESel ns \<Rightarrow> Inr (read_attr D ns a) | _ \<Rightarrow> Inl TypeError)
      | Some HowTextData \<Rightarrow>
          (case element of
             EUndef \<Rightarrow> Inl TypeError
           | ENode n \<Rightarrow> Inr (node_data D n)
           | ESel ns \<Rightarrow> Inr JOpaque
           | _ \<Rightarrow> Inr JUndef)
      | Some (HowName m) \<Rightarrow>
          (case element of
             EUndef \<Rightarrow> Inl TypeError
           | _ \<Rightarrow> (case accessor D m element of None \<Rightarrow> Inl TypeError | Some x \<Rightarrow> Inr x))
      | None \<Rightarrow> Inl TypeError)"

text \<open>Line 215: \<^verbatim>\<open>if (value.trimValue && typpy(key, String)) key = key.trim()\<close>.\<close>

definition trimmed :: "'n opts \<Rightarrow> jsval \<Rightarrow> jsval" where
  "trimmed v key =
     (case key of
        JStr s \<Rightarrow> if trimValue v = Some True then JStr (trim s) else key
      | _ \<Rightarrow> key)"

text \<open>Lines 212 to 217: the value of a scalar field.\<close>

definition scalar_value :: "'n dom \<Rightarrow> 'n opts \<Rightarrow> 'n elem \<Rightarrow> 'n error + jsval" where
  "scalar_value D v element =
     (case read_how D (how v) element of
        Inl e \<Rightarrow> Inl e
      | Inr k \<Rightarrow>
          (let key = trimmed v (if k = JUndef then JStr [] else k)
           in case convert v of
                None \<Rightarrow> Inr key
              | Some f \<Rightarrow> (case f key element of None \<Rightarrow> Inl Thrown | Some x \<Rightarrow> Inr x)))"



section \<open>Extraction engine\<close>

text \<open>
  The object \<^verbatim>\<open>pageData\<close> while the loop fills it: its own keys, and its prototype once an
  assignment has replaced it (\<open>None\<close>: the prototype of the literal \<^verbatim>\<open>{}\<close> of line 139).
\<close>

record page =
  own :: "(string \<times> jsval) list"
  proto :: "jsval option"

definition empty_page :: page where
  "empty_page = \<lparr> own = [], proto = None \<rparr>"

text \<open>The object as a value.\<close>

definition to_val :: "page \<Rightarrow> jsval" where
  "to_val doc = (case proto doc of None \<Rightarrow> JRec (own doc) | Some p \<Rightarrow> JProto (own doc) p)"

text \<open>Writing an own key: a key that exists keeps its place.\<close>

fun put :: "string \<Rightarrow> jsval \<Rightarrow> (string \<times> jsval) list \<Rightarrow> (string \<times> jsval) list" where
  "put k x [] = [(k, x)]"
| "put k x (p # ps) = (if fst p = k then (k, x) # ps else p # put k x ps)"

definition is_object :: "jsval \<Rightarrow> bool" where
  "is_object x =
     (case x of JArr xs \<Rightarrow> True | JRec kvs \<Rightarrow> True | JProto kvs p \<Rightarrow> True | JOpaque \<Rightarrow> True
      | _ \<Rightarrow> False)"

text \<open>
  \<^verbatim>\<open>pageData[value.name] = ..\<close> (lines 161, 207 and 219 write the field's value under its
  name; the array of line 161 is filled by line 174 and is modelled as assigned when it is
  complete). On the object of line 139 every name but one becomes an own key. The name
  \<^verbatim>\<open>__proto__\<close> is the accessor that every plain object inherits: the assignment creates no
  key; it makes the value the prototype of \<^verbatim>\<open>pageData\<close> when the value is an object or
  \<^verbatim>\<open>null\<close>, and does nothing otherwise. The field names of a schema are the keys of an
  object, so that a loop assigns a name once.
\<close>

definition assign :: "string \<Rightarrow> jsval \<Rightarrow> page \<Rightarrow> page" where
  "assign k x pageData =
     (if k = ''__proto__''
      then (if is_object x \<or> x = JNull then pageData\<lparr>proto := Some x\<rparr> else pageData)
      else pageData\<lparr>own := put k x (own pageData)\<rparr>)"

text \<open>
  The property \<^verbatim>\<open>___raw\<close> of a value that is the prototype of a result: an own key, or
  what the value's prototype has. An array has no such property, and an object that is
  outside the model is taken to have none.
\<close>

fun raw_of :: "jsval \<Rightarrow> jsval" where
  "raw_of (JRec kvs) = (case map_of kvs ''___raw'' of Some x \<Rightarrow> x | None \<Rightarrow> JUndef)"
| "raw_of (JProto kvs p) = (case map_of kvs ''___raw'' of Some x \<Rightarrow> x | None \<Rightarrow> raw_of p)"
| "raw_of x = JUndef"

text \<open>Line 172: \<^verbatim>\<open>doc.___raw || doc\<close>.\<close>

definition unwrap_raw :: "page \<Rightarrow> jsval" where
  "unwrap_raw doc =
     (let raw = (case map_of (own doc) ''___raw'' of
                   Some x \<Rightarrow> x
                 | None \<Rightarrow> (case proto doc of None \<Rightarrow> JUndef | Some p \<Rightarrow> raw_of p))
      in if truthy raw then raw else to_val doc)"

text \<open>Lines 167 to 172: \<^verbatim>\<open>convert\<close> is the field's or the identity, and gets one argument.\<close>

definition item_output :: "'n opts \<Rightarrow> page \<Rightarrow> jsval option" where
  "item_output v doc =
     (case convert v of None \<Rightarrow> Some (unwrap_raw doc) | Some f \<Rightarrow> f (unwrap_raw doc) EUndef)"

text \<open>Line 163: \<^verbatim>\<open>if (isEmptyObject(value.data)) value.data.___raw = {}\<close>.\<close>

definition raw_schema :: "'n schema \<Rightarrow> 'n schema" where
  "raw_schema dt = (if dt = [] then [(''___raw'', RObj no_opts None)] else dt)"

text \<open>
  \<^verbatim>\<open>handleDataObj\<close> (lines 138 to 224), with the state of the caller's schema passed
  along: every function returns the schema (or field definition) as the call leaves it,
  and what the call returns or throws.
  \<^item> \<open>handle_entries\<close> is the loop over \<^verbatim>\<open>Object.entries(data)\<close> with \<^verbatim>\<open>pageData\<close> so far;
  \<^item> \<open>handle_field\<close> is the body of that loop for one field;
  \<^item> \<open>handle_items\<close> is the loop of lines 165 to 175 over the items of a list, each call of
    which runs on the sub-schema as the call before left it. \<^verbatim>\<open>items.eq(i)\<close> is the
    selection of the one node \<^verbatim>\<open>items[i]\<close>.
\<close>

function
  handle_entries :: "'n dom \<Rightarrow> 'n elem \<Rightarrow> 'n schema \<Rightarrow> page
     \<Rightarrow> 'n schema \<times> ('n error + page)"
and
  handle_field :: "'n dom \<Rightarrow> 'n elem \<Rightarrow> string \<Rightarrow> 'n rawdef \<Rightarrow> 'n rawdef \<times> ('n error + jsval)"
and
  handle_items :: "'n dom \<Rightarrow> 'n opts \<Rightarrow> 'n schema \<Rightarrow> 'n list \<Rightarrow> jsval list
     \<Rightarrow> 'n schema \<times> ('n error + jsval list)"
where
  "handle_entries D context [] pageData = ([], Inr pageData)"
| "handle_entries D context ((key, raw) # rest) pageData =
     (case handle_field D context key raw of
        (raw', Inl e) \<Rightarrow> ((key, raw') # rest, Inl e)
      | (raw', Inr x) \<Rightarrow>
          (case handle_entries D context rest (assign key x pageData) of
             (rest', r) \<Rightarrow> ((key, raw') # rest', r)))"
| "handle_field D context key raw =
     (let v = (fst (normalizeOpt raw))\<lparr>name := Some key\<rparr>;
          dt = snd (normalizeOpt raw)
      in if context = ERoot \<and> \<not> given (selector v) \<and> \<not> given (listItem v)
         then (stored raw v dt, Inl (NoElementSelected v dt))
         else
           if given (listItem v)
           then (case handle_items D v (raw_schema dt) (list_items D v context) [] of
                   (dt', Inl e) \<Rightarrow> (stored raw v dt', Inl e)
                 | (dt', Inr outs) \<Rightarrow> (stored raw v dt', Inr (JArr outs)))
           else
             (case narrow_eq v (resolve D v context) of
                Inl e \<Rightarrow> (stored raw v dt, Inl e)
              | Inr e1 \<Rightarrow>
             (case narrow_texteq D v e1 of
                Inl e \<Rightarrow> (stored raw v dt, Inl e)
              | Inr e2 \<Rightarrow>
             (case narrow_closest D v e2 of
                Inl e \<Rightarrow> (stored raw (override_how v) dt, Inl e)
              | Inr element \<Rightarrow>
                  if dt \<noteq> []
                  then (case handle_entries D element dt empty_page of
                          (dt', Inl e) \<Rightarrow> (stored raw (override_how v) dt', Inl e)
                        | (dt', Inr doc) \<Rightarrow> (stored raw (override_how v) dt', Inr (to_val doc)))
                  else (case scalar_value D (override_how v) element of
                          Inl e \<Rightarrow> (stored raw (override_how v) dt, Inl e)
                        | Inr x \<Rightarrow> (stored raw (override_how v) dt, Inr x))))))"
| "handle_items D v dt [] outs = (dt, Inr outs)"
| "handle_items D v dt (item # items) outs =
     (case handle_entries D (ESel [item]) dt empty_page of
        (dt', Inl e) \<Rightarrow> (dt', Inl e)
      | (dt', Inr doc) \<Rightarrow>
          (case item_output v doc of
             None \<Rightarrow> (dt', Inl Thrown)
           | Some out \<Rightarrow> handle_items D v dt' items (outs @ [out])))"
  by pat_completeness auto

text \<open>
  The calls nest (an item runs on the schema the item before returned), so termination
  needs a measure that the writes do not raise: a list field with an empty sub-schema
  counts the synthetic \<^verbatim>\<open>___raw\<close> field it will get.
\<close>

fun wt :: "'n rawdef \<Rightarrow> nat" where
  "wt (RStr s) = 1"
| "wt (RObj opt dt) =
     max (case listItem opt of None \<Rightarrow> 1 | Some l \<Rightarrow> if l = [] then 1 else 3)
         (1 + (case dt of None \<Rightarrow> 0 | Some es \<Rightarrow> sum_list (map (\<lambda>p. wt (snd p)) es)))"

definition wts :: "'n schema \<Rightarrow> nat" where
  "wts es = sum_list (map (\<lambda>p. wt (snd p)) es)"

lemma listItem_fill [simp]: "listItem (fill v) = listItem v"
  by (simp add: fill_def Let_def split: option.splits)

lemma listItem_override_how [simp]: "listItem (override_how v) = listItem v"
  by (simp add: override_how_def split: option.splits)

lemma wts_simps [simp]: "wts [] = 0" "wts ((k, r) # es) = wt r + wts es"
  by (simp_all add: wts_def)

lemma wt_pos: "0 < wt r"
  by (cases r) simp_all

lemma wt_RObj:
  "wt (RObj opt dt) =
     max (if given (listItem opt) then 3 else 1)
         (1 + wts (case dt of None \<Rightarrow> [] | Some es \<Rightarrow> es))"
  by (simp add: wts_def given_def split: option.splits)

lemma wt_stored_plain:
  assumes "wts dt' \<le> wts (snd (normalizeOpt raw))"
    and "listItem v = listItem (fst (normalizeOpt raw))"
  shows "wt (stored raw v dt') \<le> wt raw"
proof (cases raw)
  case (RStr s)
  then show ?thesis by (simp add: stored_def)
next
  case (RObj opt dt)
  with assms show ?thesis
    by (simp add: stored_def wt_RObj del: wt.simps)
qed

lemma wts_raw_schema: "wts (raw_schema dt) = (if dt = [] then 1 else wts dt)"
  by (simp add: raw_schema_def no_opts_def)

lemma wt_stored_list:
  assumes "wts dt' \<le> wts (raw_schema (snd (normalizeOpt raw)))"
    and "listItem v = listItem (fst (normalizeOpt raw))"
    and "given (listItem v)"
  shows "wt (stored raw v dt') \<le> wt raw"
proof (cases raw)
  case (RStr s)
  then show ?thesis by (simp add: stored_def)
next
  case (RObj opt dt)
  with assms show ?thesis
    by (simp add: stored_def wt_RObj wts_raw_schema del: wt.simps split: if_splits)
qed

lemma wt_le_dom:
  "handle_entries_handle_field_handle_items_dom (Inl (D, c, es, p)) \<Longrightarrow>
     wts (fst (handle_entries D c es p)) \<le> wts es"
  "handle_entries_handle_field_handle_items_dom (Inr (Inl (D, c, k, raw))) \<Longrightarrow>
     wt (fst (handle_field D c k raw)) \<le> wt raw"
  "handle_entries_handle_field_handle_items_dom (Inr (Inr (D, v, dt, items, outs))) \<Longrightarrow>
     wts (fst (handle_items D v dt items outs)) \<le> wts dt"
proof (induct rule: handle_entries_handle_field_handle_items.pinduct)
  case (1 D ctx pageData)
  then show ?case by (simp add: handle_entries.psimps)
next
  case (2 D ctx key raw rest pageData)
  show ?case
    using 2(2,3)
    by (fastforce simp: handle_entries.psimps(2) [OF 2(1)] split: prod.splits sum.splits)
next
  case (3 D ctx key raw)
  define v where "v = (fst (normalizeOpt raw))\<lparr>name := Some key\<rparr>"
  define dt where "dt = snd (normalizeOpt raw)"
  have li: "listItem v = listItem (fst (normalizeOpt raw))"
    "listItem (override_how v) = listItem (fst (normalizeOpt raw))"
    by (simp_all add: v_def)
  have keep: "wt (stored raw v dt) \<le> wt raw" "wt (stored raw (override_how v) dt) \<le> wt raw"
    by (rule wt_stored_plain; simp add: dt_def li)+
  note unf = handle_field.psimps [OF 3(1), unfolded Let_def, folded v_def dt_def]
  show ?case
  proof (cases "ctx = ERoot \<and> \<not> given (selector v) \<and> \<not> given (listItem v)")
    case True
    then show ?thesis unfolding unf using keep by simp
  next
    case nroot: False
    show ?thesis
    proof (cases "given (listItem v)")
      case True
      from 3(2) [OF v_def dt_def nroot True]
      have "wts (fst (handle_items D v (raw_schema dt) (list_items D v ctx) []))
              \<le> wts (raw_schema (snd (normalizeOpt raw)))"
        by (simp add: dt_def)
      then have "wt (stored raw v (fst (handle_items D v (raw_schema dt) (list_items D v ctx) [])))
              \<le> wt raw"
        using li(1) True by (rule wt_stored_list)
      then show ?thesis unfolding unf using nroot True
        by (auto split: prod.splits sum.splits)
    next
      case nlist: False
      have nested: "wt (stored raw (override_how v) (fst (handle_entries D el dt empty_page))) \<le> wt raw"
        if "narrow_eq v (resolve D v ctx) = Inr e1" "narrow_texteq D v e1 = Inr e2"
           "narrow_closest D v e2 = Inr el" "dt \<noteq> []" for e1 e2 el
      proof -
        from 3(3) [OF v_def dt_def nroot nlist that]
        have "wts (fst (handle_entries D el dt empty_page)) \<le> wts (snd (normalizeOpt raw))"
          by (simp add: dt_def)
        then show ?thesis using li(2) by (rule wt_stored_plain)
      qed
      show ?thesis unfolding unf using nroot nlist keep nested
        by (simp split: prod.splits sum.splits) fastforce
    qed
  qed
next
  case (4 D v dt outs)
  then show ?case by (simp add: handle_items.psimps)
next
  case (5 D v dt item items outs)
  show ?case
    using 5(2,3)
    unfolding handle_items.psimps(2) [OF 5(1)]
    by (fastforce split: prod.splits sum.splits option.splits)
qed

termination handle_entries
  apply (relation "inv_image (less_than <*lex*> less_than <*lex*> less_than)
    (\<lambda>x. case x of
        Inl (D, c, es, p) \<Rightarrow> (wts es, 1::nat, 0::nat)
      | Inr (Inl (D, c, k, raw)) \<Rightarrow> (wt raw, 0, 0)
      | Inr (Inr (D, v, dt, items, outs)) \<Rightarrow> (wts dt, 2, length items))")
  subgoal by (intro wf_inv_image wf_lex_prod wf_less_than)
  apply simp_all
  subgoal by arith
  subgoal by (simp add: wt_pos)
  subgoal for key raw
    by (cases raw)
       (auto simp add: wt_RObj wts_raw_schema given_def no_opts_def
             simp del: wt.simps split: option.splits)
  subgoal for D ctx key raw
    by (cases raw) (simp_all add: wt_RObj del: wt.simps split: option.splits)
  subgoal for D v dt item x
    using wt_le_dom(1) [of D "ESel [item]" dt empty_page] by (auto dest: sym)
  done

text \<open>
  \<^verbatim>\<open>handleDataObj($, data, context)\<close> starts the loop with \<^verbatim>\<open>pageData = {}\<close>.
  \<^verbatim>\<open>scrapeIt.scrapeHTML\<close> (lines 130 to 136) calls it without a context; a markup string
  is parsed by the library first, and \<open>D\<close> stands for the document either way.
\<close>

definition handleDataObj ::
  "'n dom \<Rightarrow> 'n schema \<Rightarrow> 'n elem \<Rightarrow> 'n schema \<times> ('n error + page)" where
  "handleDataObj D data context = handle_entries D context data empty_page"

definition scrapeHTML ::
  "'n dom \<Rightarrow> 'n schema \<Rightarrow> 'n schema \<times> ('n error + page)" where
  "scrapeHTML D opts = handleDataObj D opts EUndef"

text \<open>
  The same function with the writes to the schema left out: what a call returns or throws,
  read from a schema that stays as it is. \<open>handle_extract\<close> below proves that this is
  what the stateful functions return, and that the schema they leave behind reads the same.
\<close>

function
  extract_entries :: "'n dom \<Rightarrow> 'n elem \<Rightarrow> 'n schema \<Rightarrow> page
     \<Rightarrow> 'n error + page"
and
  extract_field :: "'n dom \<Rightarrow> 'n elem \<Rightarrow> string \<Rightarrow> 'n rawdef \<Rightarrow> 'n error + jsval"
and
  extract_items :: "'n dom \<Rightarrow> 'n opts \<Rightarrow> 'n schema \<Rightarrow> 'n list \<Rightarrow> jsval list
     \<Rightarrow> 'n error + jsval list"
where
  "extract_entries D context [] pageData = Inr pageData"
| "extract_entries D context ((key, raw) # rest) pageData =
     (case extract_field D context key raw of
        Inl e \<Rightarrow> Inl e
      | Inr x \<Rightarrow> extract_entries D context rest (assign key x pageData))"
| "extract_field D context key raw =
     (let v = (fst (normalizeOpt raw))\<lparr>name := Some key\<rparr>;
          dt = snd (normalizeOpt raw)
      in if context = ERoot \<and> \<not> given (selector v) \<and> \<not> given (listItem v)
         then Inl (NoElementSelected v dt)
         else
           if given (listItem v)
           then (case extract_items D v (raw_schema dt) (list_items D v context) [] of
                   Inl e \<Rightarrow> Inl e
                 | Inr outs \<Rightarrow> Inr (JArr outs))
           else
             (case narrow_eq v (resolve D v context) of
                Inl e \<Rightarrow> Inl e
              | Inr e1 \<Rightarrow>
             (case narrow_texteq D v e1 of
                Inl e \<Rightarrow> Inl e
              | Inr e2 \<Rightarrow>
             (case narrow_closest D v e2 of
                Inl e \<Rightarrow> Inl e
              | Inr element \<Rightarrow>
                  if dt \<noteq> []
                  then (case extract_entries D element dt empty_page of
                          Inl e \<Rightarrow> Inl e
                        | Inr doc \<Rightarrow> Inr (to_val doc))
                  else scalar_value D (override_how v) element))))"
| "extract_items D v dt [] outs = Inr outs"
| "extract_items D v dt (item # items) outs =
     (case extract_entries D (ESel [item]) dt empty_page of
        Inl e \<Rightarrow> Inl e
      | Inr doc \<Rightarrow>
          (case item_output v doc of
             None \<Rightarrow> Inl Thrown
           | Some out \<Rightarrow> extract_items D v dt items (outs @ [out])))"
  by pat_completeness auto
termination
  apply (relation "inv_image (less_than <*lex*> less_than <*lex*> less_than)
    (\<lambda>x. case x of
        Inl (D, c, es, p) \<Rightarrow> (wts es, 1::nat, 0::nat)
      | Inr (Inl (D, c, k, raw)) \<Rightarrow> (wt raw, 0, 0)
      | Inr (Inr (D, v, dt, items, outs)) \<Rightarrow> (wts dt, 2, length items))")
  subgoal by (intro wf_inv_image wf_lex_prod wf_less_than)
  apply simp_all
  subgoal by arith
  subgoal by (simp add: wt_pos)
  subgoal for key raw
    by (cases raw)
       (auto simp add: wt_RObj wts_raw_schema given_def no_opts_def
             simp del: wt.simps split: option.splits)
  subgoal for D ctx key raw
    by (cases raw) (simp_all add: wt_RObj del: wt.simps split: option.splits)
  done

declare handle_field.simps [simp del] extract_field.simps [simp del]

text \<open>Two schemas that every later call reads alike, whatever the document and the context.\<close>

definition same_reading :: "'n dom \<Rightarrow> 'n schema \<Rightarrow> 'n schema \<Rightarrow> bool" where
  "same_reading D s' s \<longleftrightarrow>
     (\<forall>c p. c \<noteq> ERoot \<longrightarrow> extract_entries D c s' p = extract_entries D c s p)"

section \<open>Schemas on which the engine raises nothing\<close>




text \<open>An optional selector that the library parses where line 155, 159 or 204 passes it on.\<close>

definition accepted :: "'n dom \<Rightarrow> string option \<Rightarrow> bool" where
  "accepted D s = (case s of None \<Rightarrow> True | Some x \<Rightarrow> x = [] \<or> accepts D x)"





definition is_sel :: "'n elem \<Rightarrow> bool" where
  "is_sel c = (case c of ESel ns \<Rightarrow> True | _ \<Rightarrow> False)"

section \<open>The engine's writes to the schema do not change what it reads\<close>

lemma same_reading_refl [simp]: "same_reading D s s"
  by (simp add: same_reading_def)

lemma same_reading_trans:
  "same_reading D s2 s1 \<Longrightarrow> same_reading D s1 s \<Longrightarrow> same_reading D s2 s"
  by (simp add: same_reading_def)

lemma fill_fields [simp]:
  "selector (fill v) = selector v" "attr (fill v) = attr v" "eq (fill v) = eq v"
  "texteq (fill v) = texteq v" "convert (fill v) = convert v" "name (fill v) = name v"
  "trimValue (fill v) = objDef (trimValue v) True"
  "closest (fill v) = objDef (closest v) []"
  by (simp_all add: fill_def Let_def split: option.splits)

lemma how_fill:
  "how (fill v) =
     (case attr v of
        None \<Rightarrow> objDef (how v) (HowName ''text'')
      | Some a \<Rightarrow> if a = [] then objDef (how v) (HowName ''text'') else Some (HowAttr a))"
  by (simp add: fill_def Let_def split: option.splits)

lemma objDef_idem [simp]: "objDef (objDef x d) d' = objDef x d"
  by (simp add: objDef_def split: option.splits)

lemma fill_name: "fill (v\<lparr>name := n\<rparr>) = (fill v)\<lparr>name := n\<rparr>"
  by (simp add: fill_def Let_def split: option.splits)

lemma fill_idem [simp]: "fill (fill v) = fill v"
  by (rule opts.equality) (simp_all add: how_fill objDef_def split: option.splits)

lemma override_how_fields [simp]:
  "selector (override_how v) = selector v" "attr (override_how v) = attr v"
  "eq (override_how v) = eq v" "texteq (override_how v) = texteq v"
  "convert (override_how v) = convert v" "name (override_how v) = name v"
  "trimValue (override_how v) = trimValue v" "closest (override_how v) = closest v"
  by (simp_all add: override_how_def split: option.splits)

lemma how_override_how:
  "how (override_how v) = (case texteq v of None \<Rightarrow> how v | Some t \<Rightarrow> Some HowTextData)"
  by (simp add: override_how_def split: option.splits)

lemma override_how_fill_override:
  "override_how (fill (override_how (fill v))) = override_how (fill v)"
  by (rule opts.equality) (simp_all add: how_override_how how_fill split: option.splits)

lemma keys_kept:
  "map fst (fst (handle_entries D c s p)) = map fst s"
  "fst (handle_field D c k raw) = fst (handle_field D c k raw)"
  "map fst (fst (handle_items D v dt items outs)) = map fst dt"
  by (induct D c s p and D c k raw and D v dt items outs
        rule: handle_entries_handle_field_handle_items.induct)
     (auto split: prod.splits sum.splits option.splits)

lemma handle_entries_Nil_iff: "fst (handle_entries D c s p) = [] \<longleftrightarrow> s = []"
  using keys_kept(1) [of D c s p] by (metis map_is_Nil_conv)

lemma handle_items_Nil_iff: "fst (handle_items D v dt items outs) = [] \<longleftrightarrow> dt = []"
  using keys_kept(3) [of D v dt items outs] by (metis map_is_Nil_conv)

lemma extract_items_reading:
  "same_reading D dt' dt \<Longrightarrow> convert v' = convert v \<Longrightarrow>
     extract_items D v' dt' items outs = extract_items D v dt items outs"
  by (induction items arbitrary: outs)
     (auto simp: same_reading_def item_output_def split: sum.splits option.splits)

lemma sel_eq_nth: "i < length ns \<Longrightarrow> sel_eq ns (int i) = [ns ! i]"
  by (simp add: sel_eq_def Let_def)

lemma narrow_cong:
  "eq v' = eq v \<Longrightarrow> narrow_eq v' = narrow_eq v"
  "texteq v' = texteq v \<Longrightarrow> narrow_texteq D v' = narrow_texteq D v"
  "closest v' = closest v \<Longrightarrow> narrow_closest D v' = narrow_closest D v"
  "selector v' = selector v \<Longrightarrow> resolve D v' = resolve D v"
  "listItem v' = listItem v \<Longrightarrow> list_items D v' = list_items D v"
  by (simp_all add: narrow_eq_def narrow_texteq_def narrow_closest_def resolve_def
        list_items_def fun_eq_iff)

lemma narrow_not_root:
  "c \<noteq> ERoot \<Longrightarrow> resolve D v c \<noteq> ERoot"
  "narrow_eq v e = Inr e' \<Longrightarrow> e \<noteq> ERoot \<Longrightarrow> e' \<noteq> ERoot"
  "narrow_texteq D v e = Inr e' \<Longrightarrow> e \<noteq> ERoot \<Longrightarrow> e' \<noteq> ERoot"
  "narrow_closest D v e = Inr e' \<Longrightarrow> e \<noteq> ERoot \<Longrightarrow> e' \<noteq> ERoot"
  by (auto simp: resolve_def narrow_eq_def narrow_texteq_def narrow_closest_def
        split: option.splits elem.splits if_splits)

lemma narrowed_not_root:
  assumes "c \<noteq> ERoot" "narrow_eq v (resolve D v c) = Inr e1"
    "narrow_texteq D v e1 = Inr e2" "narrow_closest D v e2 = Inr el"
  shows "el \<noteq> ERoot"
  using assms narrow_not_root by metis

lemma extract_field_agree:
  assumes c: "c \<noteq> ERoot"
    and n': "normalizeOpt raw' = (w', dt')" and n: "normalizeOpt raw = (w, dt)"
    and sel: "selector w' = selector w" and li: "listItem w' = listItem w"
    and e: "eq w' = eq w" and t: "texteq w' = texteq w" and cl: "closest w' = closest w"
    and cv: "convert w' = convert w"
    and ov: "\<not> given (listItem w) \<Longrightarrow>
               override_how (w'\<lparr>name := Some key\<rparr>) = override_how (w\<lparr>name := Some key\<rparr>)"
    and rd: "same_reading D (if given (listItem w) then raw_schema dt' else dt')
                            (if given (listItem w) then raw_schema dt else dt)"
    and nil: "\<not> given (listItem w) \<Longrightarrow> dt' = [] \<longleftrightarrow> dt = []"
  shows "extract_field D c key raw' = extract_field D c key raw"
proof -
  define v' where "v' = w'\<lparr>name := Some key\<rparr>"
  define v where "v = w\<lparr>name := Some key\<rparr>"
  have same:
    "narrow_eq v' = narrow_eq v" "narrow_texteq D v' = narrow_texteq D v"
    "narrow_closest D v' = narrow_closest D v" "resolve D v' = resolve D v"
    "list_items D v' = list_items D v" "listItem v' = listItem v" "listItem v = listItem w"
    by (rule narrow_cong, simp add: v'_def v_def sel li e t cl)+
       (simp_all add: v'_def v_def li)
  have cvv: "convert v' = convert v" by (simp add: v'_def v_def cv)
  show ?thesis
  proof (cases "given (listItem w)")
    case True
    with rd have "same_reading D (raw_schema dt') (raw_schema dt)" by simp
    then have "extract_items D v' (raw_schema dt') items [] = extract_items D v (raw_schema dt) items []"
      for items using cvv by (rule extract_items_reading)
    then show ?thesis using True c
      unfolding extract_field.simps Let_def n n' fst_conv snd_conv
      unfolding v'_def [symmetric] v_def [symmetric]
      by (simp add: same)
  next
    case False
    with rd have rd': "same_reading D dt' dt" by simp
    from False ov have ov': "override_how v' = override_how v" by (simp add: v'_def v_def)
    have inner: "extract_entries D el dt' empty_page = extract_entries D el dt empty_page"
      if "narrow_eq v (resolve D v c) = Inr e1" "narrow_texteq D v e1 = Inr e2"
        "narrow_closest D v e2 = Inr el" for e1 e2 el
      using rd' narrowed_not_root [OF c that] by (simp add: same_reading_def)
    show ?thesis using False c nil
      unfolding extract_field.simps Let_def n n' fst_conv snd_conv
      unfolding v'_def [symmetric] v_def [symmetric]
      by (auto simp add: same ov' inner split: sum.splits)
  qed
qed

lemma raw_schema_not_Nil [simp]: "raw_schema dt \<noteq> []"
  by (simp add: raw_schema_def)

lemma raw_schema_id: "dt \<noteq> [] \<Longrightarrow> raw_schema dt = dt"
  by (simp add: raw_schema_def)

lemma extract_field_stored:
  assumes c: "c' \<noteq> ERoot"
    and n: "normalizeOpt raw = (w, dt)"
    and v: "v = w\<lparr>name := Some k\<rparr>"
    and v': "v' = v \<or> (\<not> given (listItem w) \<and> v' = override_how v)"
    and rd: "if given (listItem w)
             then same_reading D dt' (raw_schema dt) \<and> dt' \<noteq> []
             else same_reading D dt' dt \<and> (dt' = [] \<longleftrightarrow> dt = [])"
  shows "extract_field D c' k (stored raw v' dt') = extract_field D c' k raw"
proof (cases raw)
  case (RStr s)
  then show ?thesis by (simp add: stored_def)
next
  case (RObj opt d)
  with n have w: "w = fill opt" by simp
  have n': "normalizeOpt (stored raw v' dt') = (fill v', dt')"
    using RObj by (simp add: stored_def)
  have fields: "selector v' = selector w" "listItem v' = listItem w" "eq v' = eq w"
    "texteq v' = texteq w" "closest v' = closest w" "convert v' = convert w"
    using v' v by auto
  have ov: "override_how ((fill v')\<lparr>name := Some k\<rparr>) = override_how (w\<lparr>name := Some k\<rparr>)"
    using v' unfolding v w
    by (auto intro!: opts.equality simp: how_override_how how_fill split: option.splits)
  have nl: "fill v' = w\<lparr>name := Some k\<rparr>" if "given (listItem w)"
    using v' that unfolding v w by (auto simp: fill_name)
  show ?thesis
  proof (rule extract_field_agree [OF c n' n])
    show "same_reading D (if given (listItem w) then raw_schema dt' else dt')
            (if given (listItem w) then raw_schema dt else dt)"
      using rd by (auto simp: raw_schema_id)
    show "\<not> given (listItem w) \<Longrightarrow> dt' = [] \<longleftrightarrow> dt = []"
      using rd by simp
  qed (simp_all add: fields ov, simp_all add: w)
qed

lemma handle_extract:
  "snd (handle_entries D c s p) = extract_entries D c s p
     \<and> (\<forall>D'. same_reading D' (fst (handle_entries D c s p)) s)"
  "snd (handle_field D c k raw) = extract_field D c k raw
     \<and> (\<forall>D' c'. c' \<noteq> ERoot \<longrightarrow>
            extract_field D' c' k (fst (handle_field D c k raw)) = extract_field D' c' k raw)"
  "snd (handle_items D v dt items outs) = extract_items D v dt items outs
     \<and> (\<forall>D'. same_reading D' (fst (handle_items D v dt items outs)) dt)"
proof (induct D c s p and D c k raw and D v dt items outs
        rule: handle_entries_handle_field_handle_items.induct)
  case (1 D ctx pageData)
  show ?case by simp
next
  case (2 D ctx key raw rest pageData)
  obtain raw' r where hf: "handle_field D ctx key raw = (raw', r)"
    by (cases "handle_field D ctx key raw")
  from 2(1) hf have r: "r = extract_field D ctx key raw"
    and rd: "\<And>D' c'. c' \<noteq> ERoot \<Longrightarrow> extract_field D' c' key raw' = extract_field D' c' key raw"
    by simp_all
  show ?case
  proof (cases r)
    case (Inl e)
    then show ?thesis using hf r rd
      by (auto simp: same_reading_def)
  next
    case (Inr x)
    obtain rest' r' where he: "handle_entries D ctx rest (assign key x pageData) = (rest', r')"
      by (cases "handle_entries D ctx rest (assign key x pageData)")
    from 2(2) [OF hf [symmetric] Inr] he
    have "r' = extract_entries D ctx rest (assign key x pageData)"
      "\<And>D'. same_reading D' rest' rest"
      by simp_all
    then show ?thesis using hf Inr he r rd
      by (auto simp: same_reading_def split: sum.splits)
  qed
next
  case (3 D ctx key raw)
  define v where "v = (fst (normalizeOpt raw))\<lparr>name := Some key\<rparr>"
  define dt where "dt = snd (normalizeOpt raw)"
  have n: "normalizeOpt raw = (fst (normalizeOpt raw), dt)" by (simp add: dt_def)
  note unf = handle_field.simps [of D ctx key raw, unfolded Let_def, folded v_def dt_def]
  note unfe = extract_field.simps [of D ctx key raw, unfolded Let_def, folded v_def dt_def]
  have li: "listItem v = listItem (fst (normalizeOpt raw))" by (simp add: v_def)
  have keep: "extract_field D' c' key (stored raw v' dt') = extract_field D' c' key raw"
    if "c' \<noteq> ERoot" "v' = v \<or> (\<not> given (listItem v) \<and> v' = override_how v)"
      "if given (listItem v)
       then same_reading D' dt' (raw_schema dt) \<and> dt' \<noteq> []
       else same_reading D' dt' dt \<and> (dt' = [] \<longleftrightarrow> dt = [])" for D' c' v' dt'
    using that by (intro extract_field_stored [OF _ n v_def]) (simp_all add: li)
  show ?case
  proof (cases "ctx = ERoot \<and> \<not> given (selector v) \<and> \<not> given (listItem v)")
    case True
    then show ?thesis unfolding unf unfe by (simp add: keep)
  next
    case nroot: False
    show ?thesis
    proof (cases "given (listItem v)")
      case True
      obtain dt' r where hi:
        "handle_items D v (raw_schema dt) (list_items D v ctx) [] = (dt', r)"
        by (cases "handle_items D v (raw_schema dt) (list_items D v ctx) []")
      from 3(1) [OF v_def dt_def nroot True] hi
      have r: "r = extract_items D v (raw_schema dt) (list_items D v ctx) []"
        and rd: "\<And>D'. same_reading D' dt' (raw_schema dt)" by simp_all
      have ne: "dt' \<noteq> []"
        using handle_items_Nil_iff [of D v "raw_schema dt" "list_items D v ctx" "[]"] hi by simp
      show ?thesis unfolding unf unfe using nroot True hi r rd ne
        by (auto split: sum.splits simp: keep)
    next
      case nlist: False
      show ?thesis
      proof (cases "narrow_eq v (resolve D v ctx)")
        case (Inl e)
        then show ?thesis unfolding unf unfe using nroot nlist by (auto simp: keep)
      next
        case e1: (Inr e1)
        show ?thesis
        proof (cases "narrow_texteq D v e1")
          case (Inl e)
          then show ?thesis unfolding unf unfe using nroot nlist e1 by (auto simp: keep)
        next
          case e2: (Inr e2)
          show ?thesis
          proof (cases "narrow_closest D v e2")
            case (Inl e)
            then show ?thesis unfolding unf unfe using nroot nlist e1 e2 by (auto simp: keep)
          next
            case el: (Inr el)
            show ?thesis
            proof (cases "dt = []")
              case True
              then show ?thesis unfolding unf unfe using nroot nlist e1 e2 el
                by (auto split: sum.splits simp: keep)
            next
              case False
              obtain dt' r where he: "handle_entries D el dt empty_page = (dt', r)"
                by (cases "handle_entries D el dt empty_page")
              from 3(2) [OF v_def dt_def nroot nlist e1 e2 el False] he
              have r: "r = extract_entries D el dt empty_page" and rd: "\<And>D'. same_reading D' dt' dt"
                by simp_all
              have ne: "dt' \<noteq> []"
                using handle_entries_Nil_iff [of D el dt empty_page] he False by simp
              show ?thesis unfolding unf unfe using nroot nlist e1 e2 el False he r rd ne
                by (auto split: sum.splits simp: keep)
            qed
          qed
        qed
      qed
    qed
  qed
next
  case (4 D v dt outs)
  show ?case by simp
next
  case (5 D v dt item items outs)
  obtain dt1 r where he: "handle_entries D (ESel [item]) dt empty_page = (dt1, r)"
    by (cases "handle_entries D (ESel [item]) dt empty_page")
  from 5(1) he have ex: "extract_entries D (ESel [item]) dt empty_page = r"
    and rd: "\<And>D'. same_reading D' dt1 dt" by simp_all
  show ?case
  proof (cases r)
    case (Inl e)
    then show ?thesis by (simp add: he ex rd)
  next
    case (Inr doc)
    show ?thesis
    proof (cases "item_output v doc")
      case None
      then show ?thesis by (simp add: he ex rd Inr)
    next
      case (Some out)
      from 5(2) [OF he [symmetric] Inr Some]
      have "snd (handle_items D v dt1 items (outs @ [out])) = extract_items D v dt1 items (outs @ [out])"
        and "\<And>D'. same_reading D' (fst (handle_items D v dt1 items (outs @ [out]))) dt1"
        by simp_all
      moreover have "extract_items D v dt1 items (outs @ [out])
                       = extract_items D v dt items (outs @ [out])"
        using rd by (rule extract_items_reading) simp
      ultimately show ?thesis using rd
        by (auto simp: he ex Inr Some intro: same_reading_trans)
    qed
  qed
qed

lemma handle_reads:
  "snd (handle_entries D c s p) = extract_entries D c s p"
  "snd (handle_field D c k raw) = extract_field D c k raw"
  "snd (handle_items D v dt items outs) = extract_items D v dt items outs"
  using handle_extract(1) [of D c s p] handle_extract(2) [of D c k raw]
    handle_extract(3) [of D v dt items outs] by simp_all

lemma handle_entries_leaves:
  "c' \<noteq> ERoot \<Longrightarrow>
     extract_entries D' c' (fst (handle_entries D c s p)) p' = extract_entries D' c' s p'"
  using handle_extract(1) [of D c s p] by (simp add: same_reading_def)

section \<open>A document model for the concrete cases\<close>

text \<open>
  Modelled from the spec: the DOM library is not part of the repository. Section 6 of the
  spec gives its contract: \<^verbatim>\<open>query\<close> returns the matches in document order and the empty
  sequence when nothing matches, \<^verbatim>\<open>closestAncestor\<close> searches from the element upwards and
  may return it, \<^verbatim>\<open>directChildren\<close> tags each child as text or element, \<^verbatim>\<open>readAttribute\<close>
  returns the value or nothing, and the accessors are a fixed set. The model below has just
  enough of it to run the engine on small documents: a node is the path to it from the
  top, a selector is a tag name (the selectors this library accepts are the words of small
  letters and digits), and the one accessor is \<^verbatim>\<open>text\<close>.
\<close>

datatype html = Text string | Elem string "(string \<times> string) list" "html list"

fun subtree :: "html list \<Rightarrow> nat list \<Rightarrow> html option" where
  "subtree hs [] = None"
| "subtree hs (i # p) =
     (if i < length hs
      then (if p = [] then Some (hs ! i)
            else (case hs ! i of Elem t a cs \<Rightarrow> subtree cs p | Text s \<Rightarrow> None))
      else None)"

fun paths_node :: "nat list \<Rightarrow> html \<Rightarrow> nat list list"
  and paths_forest :: "nat list \<Rightarrow> nat \<Rightarrow> html list \<Rightarrow> nat list list" where
  "paths_node p (Text s) = [p]"
| "paths_node p (Elem t a cs) = p # paths_forest p 0 cs"
| "paths_forest p i [] = []"
| "paths_forest p i (h # hs) = paths_node (p @ [i]) h @ paths_forest p (Suc i) hs"

fun text_of :: "html \<Rightarrow> string" where
  "text_of (Text s) = s"
| "text_of (Elem t a cs) = concat (map text_of cs)"

definition has_tag :: "html list \<Rightarrow> string \<Rightarrow> nat list \<Rightarrow> bool" where
  "has_tag doc t p = (case subtree doc p of Some (Elem t' a cs) \<Rightarrow> t' = t | _ \<Rightarrow> False)"

definition below :: "nat list \<Rightarrow> nat list \<Rightarrow> bool" where
  "below n p = (length n < length p \<and> take (length n) p = n)"

definition doc_query :: "html list \<Rightarrow> string \<Rightarrow> nat list elem \<Rightarrow> nat list list" where
  "doc_query doc sel context =
     filter (\<lambda>p. has_tag doc sel p \<and>
                 (case context of
                    ESel ns \<Rightarrow> list_ex (\<lambda>n. below n p) ns
                  | ENode n \<Rightarrow> below n p
                  | ELoad \<Rightarrow> False
                  | _ \<Rightarrow> True))
       (paths_forest [] 0 doc)"

fun nearest :: "html list \<Rightarrow> string \<Rightarrow> nat list \<Rightarrow> nat list list" where
  "nearest doc sel [] = []"
| "nearest doc sel (i # p) =
     (if has_tag doc sel (i # p) then [i # p] else nearest doc sel (butlast (i # p)))"

definition doc_contents :: "html list \<Rightarrow> nat list list \<Rightarrow> nat list list" where
  "doc_contents doc ns =
     concat (map (\<lambda>n. case subtree doc n of
                          Some (Elem t a cs) \<Rightarrow> map (\<lambda>i. n @ [i]) [0..<length cs]
                        | _ \<Rightarrow> []) ns)"

definition doc_attr :: "html list \<Rightarrow> nat list list \<Rightarrow> string \<Rightarrow> jsval" where
  "doc_attr doc ns a =
     (case ns of
        [] \<Rightarrow> JUndef
      | n # _ \<Rightarrow>
          (case subtree doc n of
             Some (Elem t as cs) \<Rightarrow> (case map_of as a of Some x \<Rightarrow> JStr x | None \<Rightarrow> JUndef)
           | _ \<Rightarrow> JUndef))"

definition doc_text :: "html list \<Rightarrow> nat list list \<Rightarrow> string" where
  "doc_text doc ns =
     concat (map (\<lambda>n. case subtree doc n of Some h \<Rightarrow> text_of h | None \<Rightarrow> []) ns)"

definition tag_name :: "string \<Rightarrow> bool" where
  "tag_name sel \<longleftrightarrow>
     sel \<noteq> [] \<and> list_all (\<lambda>ch. ch \<in> set ''abcdefghijklmnopqrstuvwxyz0123456789'') sel"

definition doc_dom :: "html list \<Rightarrow> nat list dom" where
  "doc_dom doc =
     \<lparr> query = doc_query doc,
       closest_of = (\<lambda>ns sel. remdups (concat (map (nearest doc sel) ns))),
       contents = doc_contents doc,
       is_text = (\<lambda>n. case subtree doc n of Some (Text s) \<Rightarrow> True | _ \<Rightarrow> False),
       node_data = (\<lambda>n. case subtree doc n of Some (Text s) \<Rightarrow> JStr s | _ \<Rightarrow> JUndef),
       read_attr = doc_attr doc,
       accessor = (\<lambda>m e. case e of
                            ESel ns \<Rightarrow> if m = ''text'' then Some (JStr (doc_text doc ns)) else None
                          | _ \<Rightarrow> None),
       accepts = tag_name \<rparr>"

text \<open>\<^verbatim>\<open><ul><li>A</li><li>B</li></ul>\<close> and \<^verbatim>\<open><ul><li></li></ul>\<close>.\<close>

definition two_items :: "html list" where
  "two_items = [Elem ''ul'' [] [Elem ''li'' [] [Text ''A''], Elem ''li'' [] [Text ''B'']]]"

definition empty_item :: "html list" where
  "empty_item = [Elem ''ul'' [] [Elem ''li'' [] []]]"

text \<open>
  \<^verbatim>\<open><div><li>A</li></div><ul><li>B</li></ul>\<close> with the list field
  \<^verbatim>\<open>{selector: "ul", listItem: "li"}\<close>; \<^verbatim>\<open><ul><li><b>X</b><i>Y</i></li></ul>\<close> with the list
  field \<^verbatim>\<open>{listItem: "li"}\<close>.
\<close>

definition two_lists :: "html list" where
  "two_lists = [Elem ''div'' [] [Elem ''li'' [] [Text ''A'']],
                Elem ''ul'' [] [Elem ''li'' [] [Text ''B'']]]"

definition ul_items :: "nat list opts" where
  "ul_items = no_opts\<lparr>selector := Some ''ul'', listItem := Some ''li''\<rparr>"

definition rich_item :: "html list" where
  "rich_item = [Elem ''ul'' [] [Elem ''li'' [] [Elem ''b'' [] [Text ''X''], Elem ''i'' [] [Text ''Y'']]]]"

definition li_items :: "nat list opts" where
  "li_items = no_opts\<lparr>listItem := Some ''li''\<rparr>"


definition para :: "html list" where
  "para = [Elem ''p'' [(''id'', ''x'')] [Text ''hello'']]"


lemmas engine_defs = handle_field.simps extract_field.simps Let_def fill_def objDef_def
  empty_page_def assign_def to_val_def is_object_def
  no_opts_def given_def stored_def resolve_def list_items_def narrow_eq_def narrow_texteq_def
  narrow_closest_def override_how_def scalar_value_def read_how_def trimmed_def trim_def
  is_ws_def item_output_def unwrap_raw_def raw_schema_def sel_eq_def handleDataObj_def
  scrapeHTML_def

lemmas dom_defs = doc_dom_def doc_query_def doc_contents_def doc_attr_def doc_text_def
  has_tag_def below_def tag_name_def

section \<open>The configuration error\<close>

lemma scalar_value_not_config: "scalar_value D v e \<noteq> Inl (NoElementSelected v0 dt0)"
  by (auto simp: scalar_value_def read_how_def Let_def
        split: option.splits how.splits elem.splits sum.splits)

lemma narrow_not_config:
  "narrow_eq v e \<noteq> Inl (NoElementSelected v0 dt0)"
  "narrow_texteq D v e \<noteq> Inl (NoElementSelected v0 dt0)"
  "narrow_closest D v e \<noteq> Inl (NoElementSelected v0 dt0)"
  by (auto simp: narrow_eq_def narrow_texteq_def narrow_closest_def
        split: option.splits elem.splits)

lemma never_config:
  "c \<noteq> ERoot \<Longrightarrow> extract_entries D c s p \<noteq> Inl (NoElementSelected v0 dt0)"
  "c \<noteq> ERoot \<Longrightarrow> extract_field D c k raw \<noteq> Inl (NoElementSelected v0 dt0)"
  "extract_items D v dt items outs \<noteq> Inl (NoElementSelected v0 dt0)"
proof (induct D c s p and D c k raw and D v dt items outs
        rule: extract_entries_extract_field_extract_items.induct)
  case (1 D ctx pageData)
  then show ?case by simp
next
  case (2 D ctx key raw rest pageData)
  then show ?case by (auto split: sum.splits)
next
  case (3 D ctx key raw)
  define v where "v = (fst (normalizeOpt raw))\<lparr>name := Some key\<rparr>"
  define dt where "dt = snd (normalizeOpt raw)"
  note unfe = extract_field.simps [of D ctx key raw, unfolded Let_def, folded v_def dt_def]
  note nr = 3(3)
  show ?case
  proof (cases "given (listItem v)")
    case True
    with 3(1) [OF v_def dt_def _ True] nr show ?thesis
      unfolding unfe by (auto split: sum.splits)
  next
    case False
    have "extract_entries D el dt empty_page \<noteq> Inl (NoElementSelected v0 dt0)"
      if "narrow_eq v (resolve D v ctx) = Inr e1" "narrow_texteq D v e1 = Inr e2"
        "narrow_closest D v e2 = Inr el" "dt \<noteq> []" for e1 e2 el
      using 3(2) [OF v_def dt_def _ False that] nr narrowed_not_root [OF nr that(1-3)] by simp
    then show ?thesis
      unfolding unfe using nr False
      by (auto split: sum.splits simp: narrow_not_config scalar_value_not_config)
  qed
next
  case (4 D v dt outs)
  then show ?case by simp
next
  case (5 D v dt item items outs)
  then show ?case by (auto split: sum.splits option.splits)
qed

text \<open>
  C1. The claim: the engine raises the configuration error \<^verbatim>\<open>NO_ELEMENT_SELECTED\<close> exactly
  when a field evaluated at the root has neither a selector nor a list item. The code does
  not: \<^verbatim>\<open>scrapeHTML\<close> passes no context, so the test \<^verbatim>\<open>context === $\<close> of line 145 is
  false at the root. For the schema \<^verbatim>\<open>{foo: {}}\<close> and any document the call throws a
  \<^verbatim>\<open>TypeError\<close> at line 212 instead (\<^verbatim>\<open>element\<close> is \<^verbatim>\<open>undefined\<close>), and no schema at all makes
  \<^verbatim>\<open>scrapeHTML\<close> raise the configuration error.
\<close>

theorem root_field_without_selector:
  "snd (scrapeHTML D [(''foo'', RObj no_opts None)]) = Inl TypeError
   \<and> (\<forall>opts v dt. snd (scrapeHTML D opts) \<noteq> Inl (NoElementSelected v dt))"
proof
  show "snd (scrapeHTML D [(''foo'', RObj no_opts None)]) = Inl TypeError"
    by (simp add: engine_defs)
  show "\<forall>opts v dt. snd (scrapeHTML D opts) \<noteq> Inl (NoElementSelected v dt)"
    by (simp add: scrapeHTML_def handleDataObj_def handle_reads never_config)
qed

theorem root_field_without_selector_witness:
  "snd (scrapeHTML (doc_dom two_items) [(''foo'', RObj no_opts None)]) = Inl TypeError"
  using root_field_without_selector [of "doc_dom two_items"] by simp

section \<open>Lists of scalars\<close>

text \<open>
  C2. The claim: a list field with an empty sub-schema stores the bare scalar of every
  item, never a record. The code unwraps with \<^verbatim>\<open>doc.___raw || doc\<close> (line 172), so an item
  whose scalar is falsy stays wrapped: \<^verbatim>\<open>{items: {listItem: "li"}}\<close> over
  \<^verbatim>\<open><ul><li>A</li><li>B</li></ul>\<close> yields \<^verbatim>\<open>{items: ["A", "B"]}\<close> as the claim says, and over
  \<^verbatim>\<open><ul><li></li></ul>\<close> it yields \<^verbatim>\<open>{items: [{___raw: ""}]}\<close>, not \<^verbatim>\<open>{items: [""]}\<close>.
\<close>

theorem scalar_list_empty_item_wrapped:
  "snd (scrapeHTML (doc_dom two_items) [(''items'', RObj (no_opts\<lparr>listItem := Some ''li''\<rparr>) None)])
     = Inr \<lparr>own = [(''items'', JArr [JStr ''A'', JStr ''B''])], proto = None\<rparr>
   \<and> snd (scrapeHTML (doc_dom empty_item) [(''items'', RObj (no_opts\<lparr>listItem := Some ''li''\<rparr>) None)])
     = Inr \<lparr>own = [(''items'', JArr [JRec [(''___raw'', JStr [])]])], proto = None\<rparr>"
  by (simp add: engine_defs dom_defs two_items_def empty_item_def)

section \<open>Narrowing\<close>

text \<open>
  C6. The claim: a scalar field narrows by \<^verbatim>\<open>eq\<close>, then \<^verbatim>\<open>texteq\<close>, then \<^verbatim>\<open>closest\<close>, which
  replaces the element with its nearest matching ancestor. The code runs the three steps in
  that order, but after \<^verbatim>\<open>texteq\<close> the element is a bare text node or \<^verbatim>\<open>cheerio.load('')\<close>
  (lines 189 and 198), and line 204 calls \<^verbatim>\<open>element.closest\<close> on it: every field with
  \<^verbatim>\<open>texteq\<close> and \<^verbatim>\<open>closest\<close>, such as \<^verbatim>\<open>{selector: "p", texteq: 0, closest: "div"}\<close>,
  throws a \<^verbatim>\<open>TypeError\<close> whatever the document is.
\<close>

theorem texteq_then_closest:
  assumes "texteq v = Some t" and "given (closest v)" and "\<not> given (listItem v)"
    and "c \<noteq> ERoot"
  shows "snd (handle_field D c k (RObj v dt)) = Inl TypeError"
proof -
  define w where "w = (fill v)\<lparr>name := Some k\<rparr>"
  have f: "texteq w = Some t" "given (closest w)" "\<not> given (listItem w)"
    using assms(1-3) by (simp_all add: w_def given_def objDef_def split: option.splits)
  have 1: "narrow_eq w e = Inl TypeError \<or> (\<exists>e1. narrow_eq w e = Inr e1)" for e
    by (auto simp: narrow_eq_def split: option.splits elem.splits)
  have 2: "narrow_texteq D w e = Inl TypeError
             \<or> (\<exists>n. narrow_texteq D w e = Inr (ENode n)) \<or> narrow_texteq D w e = Inr ELoad" for e
    using f(1) by (auto simp: narrow_texteq_def split: option.splits elem.splits)
  have 3: "narrow_closest D w (ENode n) = Inl TypeError" "narrow_closest D w ELoad = Inl TypeError"
    for n
    using f(2) by (auto simp: narrow_closest_def given_def split: option.splits)
  note unf = extract_field.simps [of D c k "RObj v dt", unfolded Let_def normalizeOpt.simps
      fst_conv snd_conv, folded w_def]
  have "extract_field D c k (RObj v dt) = Inl TypeError"
  proof (cases "narrow_eq w (resolve D w c)")
    case (Inl e)
    with 1 [of "resolve D w c"] have "e = TypeError" by simp
    with Inl show ?thesis unfolding unf using f(3) assms(4) by simp
  next
    case e1: (Inr e1)
    show ?thesis
    proof (cases "narrow_texteq D w e1")
      case (Inl e)
      with 2 [of e1] have "e = TypeError" by simp
      with Inl e1 show ?thesis unfolding unf using f(3) assms(4) by simp
    next
      case (Inr e2)
      with 2 [of e1] have "(\<exists>n. e2 = ENode n) \<or> e2 = ELoad" by simp
      with 3 have "narrow_closest D w e2 = Inl TypeError" by auto
      with Inr e1 show ?thesis unfolding unf using f(3) assms(4) by simp
    qed
  qed
  then show ?thesis by (simp add: handle_reads)
qed

theorem texteq_then_closest_witness:
  "snd (handle_field (doc_dom para) EUndef ''t''
          (RObj (no_opts\<lparr>selector := Some ''p'', texteq := Some 0, closest := Some ''div''\<rparr>) None))
     = Inl TypeError"
proof -
  let ?v = "no_opts\<lparr>selector := Some ''p'', texteq := Some 0, closest := Some ''div''\<rparr> :: nat list opts"
  have h: "texteq ?v = Some 0" "given (closest ?v)" "\<not> given (listItem ?v)"
    "(EUndef :: nat list elem) \<noteq> ERoot"
    by (simp_all add: no_opts_def given_def)
  show ?thesis by (rule texteq_then_closest [OF h])
qed

section \<open>List fields\<close>

lemma put_keys: "fst ` set (put k x p) = insert k (fst ` set p)"
  by (induction p) auto

lemma assign_keys:
  "fst ` set (own (assign k x p)) = fst ` set (own p) \<union> ({k} - {''__proto__''})"
  by (simp add: assign_def put_keys)

lemma extract_entries_keys:
  "extract_entries D c s p = Inr r \<Longrightarrow>
     fst ` set (own r) = fst ` set (own p) \<union> (fst ` set s - {''__proto__''})"
proof (induction s arbitrary: p)
  case Nil
  then show ?case by simp
next
  case (Cons e s)
  obtain k raw where e: "e = (k, raw)" by (cases e)
  from Cons.prems obtain x where "extract_entries D c s (assign k x p) = Inr r"
    by (auto simp: e split: sum.splits)
  from Cons.IH [OF this] show ?case by (auto simp: e assign_keys)
qed

lemma extract_items_all2:
  "extract_items D v dt items outs0 = Inr outs \<Longrightarrow>
     \<exists>new. outs = outs0 @ new \<and>
       list_all2 (\<lambda>node out. \<exists>doc. extract_entries D (ESel [node]) dt empty_page = Inr doc
                                  \<and> item_output v doc = Some out) items new"
proof (induction items arbitrary: outs0)
  case Nil
  then show ?case by simp
next
  case (Cons item items)
  from Cons.prems obtain doc out where
    d: "extract_entries D (ESel [item]) dt empty_page = Inr doc" and
    o: "item_output v doc = Some out" and
    r: "extract_items D v dt items (outs0 @ [out]) = Inr outs"
    by (auto split: sum.splits option.splits)
  from Cons.IH [OF r] obtain new where
    "outs = (outs0 @ [out]) @ new"
    "list_all2 (\<lambda>node out. \<exists>doc. extract_entries D (ESel [node]) dt empty_page = Inr doc
                                  \<and> item_output v doc = Some out) items new"
    by blast
  with d o show ?case by (intro exI [of _ "out # new"]) simp
qed

lemma item_output_convert: "convert v' = convert v \<Longrightarrow> item_output v' = item_output v"
  by (simp add: item_output_def fun_eq_iff)

lemma list_field_reads:
  assumes "listItem v = Some l" "l \<noteq> []"
  shows "snd (handle_field D c k (RObj v dt)) =
           (case extract_items D v (raw_schema (case dt of None \<Rightarrow> [] | Some es \<Rightarrow> es))
                   (query D l c) [] of
              Inl e \<Rightarrow> Inl e
            | Inr outs \<Rightarrow> Inr (JArr outs))"
proof -
  have "extract_items D ((fill v)\<lparr>name := Some k\<rparr>) dt' items [] = extract_items D v dt' items []"
    for dt' items
    by (rule extract_items_reading) simp_all
  then show ?thesis using assms
    by (simp add: handle_reads extract_field.simps given_def list_items_def)
qed

lemma list_field_items:
  assumes "listItem v = Some l" "l \<noteq> []"
    and "snd (handle_field D c k (RObj v dt)) = Inr x"
  shows "\<exists>outs. x = JArr outs \<and>
           list_all2 (\<lambda>node out. \<exists>doc.
                snd (handleDataObj D (raw_schema (case dt of None \<Rightarrow> [] | Some es \<Rightarrow> es)) (ESel [node]))
                  = Inr doc
                \<and> item_output v doc = Some out)
             (query D l c) outs"
proof -
  from assms obtain outs where x: "x = JArr outs" and
    e: "extract_items D v (raw_schema (case dt of None \<Rightarrow> [] | Some es \<Rightarrow> es)) (query D l c) [] = Inr outs"
    by (auto simp: list_field_reads split: sum.splits)
  from extract_items_all2 [OF e] x show ?thesis
    by (auto simp: handleDataObj_def handle_reads)
qed

text \<open>
  C3, as stated: the items of a list field are the matches of \<^verbatim>\<open>listItem\<close> within the
  result of the field's \<^verbatim>\<open>selector\<close> when it has one. Line 159 queries within \<^verbatim>\<open>context\<close>,
  not within \<^verbatim>\<open>element\<close>: over \<^verbatim>\<open><div><li>A</li></div><ul><li>B</li></ul>\<close> the field
  \<^verbatim>\<open>{selector: "ul", listItem: "li"}\<close> yields both items, where the query within the
  selector's result has the one node of \<^verbatim>\<open>B\<close>.
\<close>

theorem list_items_selector_counterexample:
  "snd (scrapeHTML (doc_dom two_lists) [(''items'', RObj ul_items None)])
     = Inr \<lparr>own = [(''items'', JArr [JStr ''A'', JStr ''B''])], proto = None\<rparr>
   \<and> query (doc_dom two_lists) ''li'' (resolve (doc_dom two_lists) ul_items EUndef) = [[1, 0]]"
  by (simp add: engine_defs dom_defs two_lists_def ul_items_def)

text \<open>
  C3, amended: the items of a list field are the matches of \<^verbatim>\<open>listItem\<close> within the
  inherited context, whatever the field's \<^verbatim>\<open>selector\<close> is; the stored sequence has one entry
  per match, in the order of the matches, each the engine's result for the sub-schema on
  that match.
\<close>

theorem list_items_from_context:
  assumes "listItem v = Some l" and "l \<noteq> []"
  shows "snd (handle_field D c k (RObj (v\<lparr>selector := s\<rparr>) dt)) = snd (handle_field D c k (RObj v dt))
    \<and> (\<forall>x. snd (handle_field D c k (RObj v dt)) = Inr x \<longrightarrow>
          (\<exists>outs. x = JArr outs \<and>
             list_all2 (\<lambda>node out. \<exists>doc.
                  snd (handleDataObj D (raw_schema (case dt of None \<Rightarrow> [] | Some es \<Rightarrow> es)) (ESel [node]))
                    = Inr doc
                  \<and> item_output v doc = Some out)
               (query D l c) outs))"
proof
  have "extract_items D (v\<lparr>selector := s\<rparr>) dt' items [] = extract_items D v dt' items []"
    for dt' items
    by (rule extract_items_reading) simp_all
  then show "snd (handle_field D c k (RObj (v\<lparr>selector := s\<rparr>) dt)) = snd (handle_field D c k (RObj v dt))"
    using assms by (simp add: list_field_reads)
  show "\<forall>x. snd (handle_field D c k (RObj v dt)) = Inr x \<longrightarrow>
          (\<exists>outs. x = JArr outs \<and>
             list_all2 (\<lambda>node out. \<exists>doc.
                  snd (handleDataObj D (raw_schema (case dt of None \<Rightarrow> [] | Some es \<Rightarrow> es)) (ESel [node]))
                    = Inr doc
                  \<and> item_output v doc = Some out)
               (query D l c) outs)"
    using list_field_items [OF assms] by blast
qed

theorem list_items_from_context_witness:
  "snd (handle_field (doc_dom two_lists) EUndef ''items'' (RObj (ul_items\<lparr>selector := None\<rparr>) None))
     = snd (handle_field (doc_dom two_lists) EUndef ''items'' (RObj ul_items None))
   \<and> (\<exists>outs. JArr [JStr ''A'', JStr ''B''] = JArr outs \<and>
         list_all2 (\<lambda>node out. \<exists>doc.
              snd (handleDataObj (doc_dom two_lists) (raw_schema []) (ESel [node])) = Inr doc
              \<and> item_output ul_items doc = Some out)
           [[0, 0], [1, 0]] outs)"
proof -
  have l: "listItem ul_items = Some ''li''" "''li'' \<noteq> []"
    by (simp_all add: ul_items_def no_opts_def)
  have r: "snd (handle_field (doc_dom two_lists) EUndef ''items'' (RObj ul_items None))
             = Inr (JArr [JStr ''A'', JStr ''B''])"
    by (simp add: engine_defs dom_defs two_lists_def ul_items_def)
  have q: "query (doc_dom two_lists) ''li'' EUndef = [[0, 0], [1, 0]]"
    by (simp add: dom_defs two_lists_def)
  from list_items_from_context [OF l, of "doc_dom two_lists" EUndef "''items''" None None] r q
  show ?thesis by simp
qed

text \<open>
  C10. In a list field whose sub-schema has a field named \<^verbatim>\<open>___raw\<close>, every item's record
  has that key, and where its value is truthy the item's result is that value alone (passed
  through \<^verbatim>\<open>convert\<close> when the list field has one): the other sub-fields are dropped.
\<close>

theorem raw_subfield_replaces_item:
  assumes "listItem v = Some l" and "l \<noteq> []" and "''___raw'' \<in> fst ` set es"
  shows "\<forall>x. snd (handle_field D c k (RObj v (Some es))) = Inr x \<longrightarrow>
          (\<exists>outs. x = JArr outs \<and>
             list_all2 (\<lambda>node out. \<exists>doc y.
                  snd (handleDataObj D es (ESel [node])) = Inr doc
                  \<and> map_of (own doc) ''___raw'' = Some y
                  \<and> (truthy y \<longrightarrow>
                       (case convert v of None \<Rightarrow> out = y | Some f \<Rightarrow> f y EUndef = Some out)))
               (query D l c) outs)"
proof (intro allI impI)
  fix x
  assume x: "snd (handle_field D c k (RObj v (Some es))) = Inr x"
  let ?Q = "\<lambda>node out. \<exists>doc y.
                  snd (handleDataObj D es (ESel [node])) = Inr doc
                  \<and> map_of (own doc) ''___raw'' = Some y
                  \<and> (truthy y \<longrightarrow>
                       (case convert v of None \<Rightarrow> out = y | Some f \<Rightarrow> f y EUndef = Some out))"
  from assms(3) have ne: "es \<noteq> []" by auto
  have "\<exists>outs. x = JArr outs \<and>
           list_all2 (\<lambda>node out. \<exists>doc. snd (handleDataObj D es (ESel [node])) = Inr doc
                                  \<and> item_output v doc = Some out) (query D l c) outs"
    using list_field_items [OF assms(1,2) x] unfolding option.case raw_schema_id [OF ne] .
  then obtain outs where
    o: "x = JArr outs" and
    a: "list_all2 (\<lambda>node out. \<exists>doc. snd (handleDataObj D es (ESel [node])) = Inr doc
                                  \<and> item_output v doc = Some out) (query D l c) outs"
    by blast
  have step: "?Q node out"
    if "\<exists>doc. snd (handleDataObj D es (ESel [node])) = Inr doc \<and> item_output v doc = Some out"
    for node out
  proof -
    from that obtain doc where d: "snd (handleDataObj D es (ESel [node])) = Inr doc"
      and io: "item_output v doc = Some out" by blast
    from d have "fst ` set (own doc) = fst ` set es - {''__proto__''}"
      using extract_entries_keys [of D "ESel [node]" es empty_page doc]
      by (simp add: handleDataObj_def handle_reads empty_page_def)
    with assms(3) have "map_of (own doc) ''___raw'' \<noteq> None"
      by (simp add: map_of_eq_None_iff)
    then obtain y where y: "map_of (own doc) ''___raw'' = Some y" by blast
    have "truthy y \<longrightarrow> (case convert v of None \<Rightarrow> out = y | Some f \<Rightarrow> f y EUndef = Some out)"
      using io y by (auto simp: item_output_def unwrap_raw_def split: option.splits)
    with d y show ?thesis by blast
  qed
  have "list_all2 ?Q (query D l c) outs"
    using a by (rule list_all2_mono) (rule step)
  with o show "\<exists>outs. x = JArr outs \<and> list_all2 ?Q (query D l c) outs"
    by blast
qed

theorem raw_subfield_replaces_item_witness:
  "snd (handle_field (doc_dom rich_item) EUndef ''items''
          (RObj li_items (Some [(''___raw'', RStr ''b''), (''other'', RStr ''i'')])))
     = Inr (JArr [JStr ''X''])
   \<and> (\<exists>outs. JArr [JStr ''X''] = JArr outs \<and>
         list_all2 (\<lambda>node out. \<exists>doc y.
              snd (handleDataObj (doc_dom rich_item)
                     [(''___raw'', RStr ''b''), (''other'', RStr ''i'')] (ESel [node])) = Inr doc
              \<and> map_of (own doc) ''___raw'' = Some y
              \<and> (truthy y \<longrightarrow>
                   (case convert li_items of None \<Rightarrow> out = y | Some f \<Rightarrow> f y EUndef = Some out)))
           (query (doc_dom rich_item) ''li'' EUndef) outs)"
proof -
  have l: "listItem li_items = Some ''li''" "''li'' \<noteq> []"
    by (simp_all add: li_items_def no_opts_def)
  have k: "''___raw'' \<in> fst ` set [(''___raw'', RStr ''b''), (''other'', RStr ''i'')]"
    by simp
  have r: "snd (handle_field (doc_dom rich_item) EUndef ''items''
              (RObj li_items (Some [(''___raw'', RStr ''b''), (''other'', RStr ''i'')])))
             = Inr (JArr [JStr ''X''])"
    by (simp add: engine_defs dom_defs rich_item_def li_items_def)
  from raw_subfield_replaces_item [OF l k, of "doc_dom rich_item" EUndef "''items''"] r
  show ?thesis by simp
qed

section \<open>Calls on the same schema\<close>




lemma handle_field_RStr: "fst (handle_field D c k (RStr s)) = RStr s"
  by (simp add: handle_field.simps Let_def stored_def split: sum.splits prod.splits)

lemma handle_entries_strings:
  "list_all (\<lambda>p. case snd p of RStr x \<Rightarrow> True | RObj v dt \<Rightarrow> False) s \<Longrightarrow>
     fst (handle_entries D c s p) = s"
proof (induction s arbitrary: p)
  case Nil
  then show ?case by simp
next
  case (Cons e s)
  then obtain k x where e: "e = (k, RStr x)"
    by (cases e; cases "snd e") auto
  from Cons have ih: "fst (handle_entries D c s p') = s" for p' by simp
  obtain raw' r where hf: "handle_field D c k (RStr x) = (raw', r)"
    by (cases "handle_field D c k (RStr x)")
  with handle_field_RStr [of D c k x] have raw': "raw' = RStr x" by simp
  show ?case
  proof (cases r)
    case (Inl err)
    then show ?thesis by (simp add: e hf raw')
  next
    case (Inr y)
    obtain s' r' where he: "handle_entries D c s (assign k y p) = (s', r')"
      by (cases "handle_entries D c s (assign k y p)")
    with ih [of "assign k y p"] have "s' = s" by simp
    then show ?thesis by (simp add: e hf raw' Inr he)
  qed
qed

lemma handle_entries_fields:
  "snd (handle_entries D c s p) = Inr r \<Longrightarrow>
     fst (handle_entries D c s p) = map (\<lambda>e. (fst e, fst (handle_field D c (fst e) (snd e)))) s"
proof (induction s arbitrary: p)
  case Nil
  then show ?case by simp
next
  case (Cons e s)
  obtain k raw where e: "e = (k, raw)" by (cases e)
  obtain raw' x where hf: "handle_field D c k raw = (raw', x)"
    by (cases "handle_field D c k raw")
  show ?case
  proof (cases x)
    case (Inl err)
    with Cons.prems show ?thesis by (simp add: e hf)
  next
    case (Inr y)
    obtain s' r' where he: "handle_entries D c s (assign k y p) = (s', r')"
      by (cases "handle_entries D c s (assign k y p)")
    with Cons.prems have "r' = Inr r" by (simp add: e hf Inr)
    with Cons.IH [of "assign k y p"] he
    have "s' = map (\<lambda>e. (fst e, fst (handle_field D c (fst e) (snd e)))) s" by simp
    then show ?thesis by (simp add: e hf Inr he)
  qed
qed

lemma handle_field_written:
  fixes v :: "'n opts" and k :: string and dt :: "'n schema option"
  defines "w \<equiv> (fill v)\<lparr>name := Some k\<rparr>"
    and "d \<equiv> (case dt of None \<Rightarrow> [] | Some es \<Rightarrow> es)"
  shows "\<exists>v' dt'. fst (handle_field D c k (RObj v dt)) = RObj v' (Some dt')
           \<and> (v' = w \<or> v' = override_how w)
           \<and> ((\<exists>x. snd (handle_field D c k (RObj v dt)) = Inr x) \<longrightarrow>
                 v' = (if given (listItem v) then w else override_how w))
           \<and> map fst dt' = map fst (if given (listItem v) then raw_schema d else d)"
proof -
  note unf = handle_field.simps [of D c k "RObj v dt", unfolded Let_def normalizeOpt.simps
      fst_conv snd_conv, folded w_def d_def]
  have li: "listItem w = listItem v" by (simp add: w_def)
  have ki: "map fst a = map fst (raw_schema d)"
    if "handle_items D w (raw_schema d) items [] = (a, b)" for items a b
    using keys_kept(3) [of D w "raw_schema d" items "[]"] that by simp
  have ke: "map fst a = map fst d" if "handle_entries D el d empty_page = (a, b)" for el a b
    using keys_kept(1) [of D el d empty_page] that by simp
  show ?thesis
  proof (cases "given (listItem v)")
    case True
    then show ?thesis unfolding unf li
      by (auto simp: stored_def split: prod.splits sum.splits intro: ki)
  next
    case False
    then show ?thesis unfolding unf li
      by (auto simp: stored_def split: prod.splits sum.splits intro: ke)
  qed
qed

text \<open>
  C4, as stated: a call leaves the caller's schema unchanged. It does not: after
  \<^verbatim>\<open>{items: {listItem: "li"}}\<close> is run once, the caller's object holds the defaults of
  \<^verbatim>\<open>normalizeOpt\<close>, its \<^verbatim>\<open>name\<close>, and the sub-schema \<^verbatim>\<open>{___raw: {..}}\<close> of line 163.
\<close>

theorem schema_unchanged_counterexample:
  "fst (scrapeHTML (doc_dom two_items) [(''items'', RObj li_items None)])
     = [(''items'',
         RObj (li_items\<lparr>how := Some (HowName ''text''), trimValue := Some True,
                 closest := Some [], name := Some ''items''\<rparr>)
           (Some [(''___raw'',
                   RObj (no_opts\<lparr>how := Some (HowName ''text''), trimValue := Some True,
                           closest := Some [], name := Some ''___raw''\<rparr>) (Some []))]))]
   \<and> fst (scrapeHTML (doc_dom two_items) [(''items'', RObj li_items None)])
       \<noteq> [(''items'', RObj li_items None)]"
  by (simp add: engine_defs dom_defs two_items_def li_items_def)

text \<open>
  C4, amended. For a schema in which no object occurs at two places (a schema is a tree
  here: \<open>rawdef\<close>): a field given as a selector string is left as it is, and so is a schema
  of such strings; a field given as an object is normalized in place. After a call that
  returns, every field of the caller's schema is as the loop body left it: the object holds
  what \<^verbatim>\<open>normalizeOpt\<close> writes (\<open>fill\<close>: the defaults, and the attribute reader as \<^verbatim>\<open>how\<close>
  where \<^verbatim>\<open>attr\<close> is set) and its \<^verbatim>\<open>name\<close>, the \<^verbatim>\<open>how\<close> of line 200 where \<^verbatim>\<open>texteq\<close> was
  applied, and a sub-schema with the keys it had, or with the key \<^verbatim>\<open>___raw\<close> of line 163
  for a list without sub-fields. What a call writes there changes the result
  of no later call on the same schema, over the same or another document. Where one object
  is at two places of a schema, a write for the one field is read for the other; such a
  schema is outside the statement.
\<close>

theorem schema_writes_not_observed:
  "(list_all (\<lambda>p. case snd p of RStr x \<Rightarrow> True | RObj v dt \<Rightarrow> False) opts
      \<longrightarrow> fst (scrapeHTML D opts) = opts)
   \<and> fst (handle_field D c k (RStr s)) = RStr s
   \<and> (\<forall>r. snd (scrapeHTML D opts) = Inr r \<longrightarrow>
          fst (scrapeHTML D opts)
            = map (\<lambda>e. (fst e, fst (handle_field D EUndef (fst e) (snd e)))) opts)
   \<and> (\<exists>v' dt'. fst (handle_field D c k (RObj v dt)) = RObj v' (Some dt')
          \<and> (v' = (fill v)\<lparr>name := Some k\<rparr> \<or> v' = override_how ((fill v)\<lparr>name := Some k\<rparr>))
          \<and> ((\<exists>x. snd (handle_field D c k (RObj v dt)) = Inr x) \<longrightarrow>
                v' = (if given (listItem v) then (fill v)\<lparr>name := Some k\<rparr>
                      else override_how ((fill v)\<lparr>name := Some k\<rparr>)))
          \<and> map fst dt' =
              map fst (if given (listItem v)
                       then raw_schema (case dt of None \<Rightarrow> [] | Some es \<Rightarrow> es)
                       else (case dt of None \<Rightarrow> [] | Some es \<Rightarrow> es)))
   \<and> (\<forall>D'. snd (scrapeHTML D' (fst (scrapeHTML D opts))) = snd (scrapeHTML D' opts))"
proof (intro conjI)
  show "list_all (\<lambda>p. case snd p of RStr x \<Rightarrow> True | RObj v dt \<Rightarrow> False) opts
          \<longrightarrow> fst (scrapeHTML D opts) = opts"
    by (simp add: scrapeHTML_def handleDataObj_def handle_entries_strings)
  show "fst (handle_field D c k (RStr s)) = RStr s"
    by (rule handle_field_RStr)
  show "\<forall>r. snd (scrapeHTML D opts) = Inr r \<longrightarrow>
          fst (scrapeHTML D opts)
            = map (\<lambda>e. (fst e, fst (handle_field D EUndef (fst e) (snd e)))) opts"
    unfolding scrapeHTML_def handleDataObj_def by (blast intro: handle_entries_fields)
  show "\<exists>v' dt'. fst (handle_field D c k (RObj v dt)) = RObj v' (Some dt')
          \<and> (v' = (fill v)\<lparr>name := Some k\<rparr> \<or> v' = override_how ((fill v)\<lparr>name := Some k\<rparr>))
          \<and> ((\<exists>x. snd (handle_field D c k (RObj v dt)) = Inr x) \<longrightarrow>
                v' = (if given (listItem v) then (fill v)\<lparr>name := Some k\<rparr>
                      else override_how ((fill v)\<lparr>name := Some k\<rparr>)))
          \<and> map fst dt' =
              map fst (if given (listItem v)
                       then raw_schema (case dt of None \<Rightarrow> [] | Some es \<Rightarrow> es)
                       else (case dt of None \<Rightarrow> [] | Some es \<Rightarrow> es))"
    by (rule handle_field_written)
  show "\<forall>D'. snd (scrapeHTML D' (fst (scrapeHTML D opts))) = snd (scrapeHTML D' opts)"
    by (simp add: scrapeHTML_def handleDataObj_def handle_reads handle_entries_leaves)
qed

theorem schema_writes_not_observed_witness:
  "fst (scrapeHTML (doc_dom two_items) [(''a'', RStr ''li'')]) = [(''a'', RStr ''li'')]
   \<and> fst (scrapeHTML (doc_dom two_items) [(''items'', RObj li_items None)])
       = [(''items'', fst (handle_field (doc_dom two_items) EUndef ''items'' (RObj li_items None)))]
   \<and> (\<exists>dt'. fst (handle_field (doc_dom two_items) EUndef ''items'' (RObj li_items None))
                 = RObj ((fill li_items)\<lparr>name := Some ''items''\<rparr>) (Some dt')
              \<and> map fst dt' = [''___raw''])
   \<and> snd (scrapeHTML (doc_dom empty_item) (fst (scrapeHTML (doc_dom two_items) [(''items'', RObj li_items None)])))
       = snd (scrapeHTML (doc_dom empty_item) [(''items'', RObj li_items None)])"
proof -
  let ?D = "doc_dom two_items"
  let ?s = "[(''items'', RObj li_items None)] :: nat list schema"
  have r: "snd (scrapeHTML ?D ?s) = Inr \<lparr>own = [(''items'', JArr [JStr ''A'', JStr ''B''])], proto = None\<rparr>"
    by (simp add: engine_defs dom_defs two_items_def li_items_def)
  have x: "snd (handle_field ?D EUndef ''items'' (RObj li_items None)) = Inr (JArr [JStr ''A'', JStr ''B''])"
    by (simp add: engine_defs dom_defs two_items_def li_items_def)
  have l: "given (listItem li_items)" "raw_schema ([] :: nat list schema) = [(''___raw'', RObj no_opts None)]"
    by (simp_all add: li_items_def no_opts_def given_def raw_schema_def)
  note t = schema_writes_not_observed
  have 1: "fst (scrapeHTML ?D [(''a'', RStr ''li'')]) = [(''a'', RStr ''li'')]"
    using t [of "[(''a'', RStr ''li'')]" ?D] by simp
  have 2: "fst (scrapeHTML ?D ?s) = [(''items'', fst (handle_field ?D EUndef ''items'' (RObj li_items None)))]"
    using t [of ?s ?D] r by simp
  have 3: "\<exists>dt'. fst (handle_field ?D EUndef ''items'' (RObj li_items None))
                 = RObj ((fill li_items)\<lparr>name := Some ''items''\<rparr>) (Some dt')
              \<and> map fst dt' = [''___raw'']"
    using t [of ?s ?D EUndef "''items''" _ li_items None, THEN conjunct2, THEN conjunct2,
             THEN conjunct2, THEN conjunct1] x l
    by auto
  have 4: "snd (scrapeHTML (doc_dom empty_item) (fst (scrapeHTML ?D ?s)))
             = snd (scrapeHTML (doc_dom empty_item) ?s)"
    using t [of ?s ?D] by simp
  from 1 2 3 4 show ?thesis by blast
qed

section \<open>Scalar and nested fields\<close>















section \<open>Errors and empty results\<close>








lemma given_objDef [simp]: "given (objDef x []) = given x"
  by (simp add: given_def objDef_def split: option.splits)

lemma accepted_objDef [simp]: "accepted D (objDef x []) = accepted D x"
  by (simp add: accepted_def objDef_def split: option.splits)






lemma is_sel_simps [simp]: "is_sel (ESel ns)" "\<not> is_sel (ENode n)" "\<not> is_sel ELoad"
  "\<not> is_sel EUndef" "\<not> is_sel ERoot"
  by (simp_all add: is_sel_def)









end
